theory Spec2Isabelle
  imports Main
begin

section \<open>JavaScript values read by the client\<close>

text \<open>
  The client (\<^verbatim>\<open>src/index.mjs\<close>) reads JSON documents sent by the chat-completion API.
  A JavaScript string is represented by its UTF-8 bytes (an Isabelle \<^typ>\<open>string\<close>), so
  that \<^verbatim>\<open>TextEncoder.encode\<close> is the identity on the representation; strings holding a lone
  surrogate have no representation. Numbers are kept abstract (type \<open>'n\<close>): the platform
  says which numbers are zero and how a number prints.
\<close>

datatype 'n json =
    JNull
  | JBool bool
  | JNum 'n
  | JStr string
  | JArr "'n json list"
  | JObj "(string \<times> 'n json) list"

text \<open>A JavaScript value is a JSON value or \<^verbatim>\<open>undefined\<close> (\<open>None\<close>).\<close>

type_synonym 'n jsval = "'n json option"

datatype js_error = SyntaxError | TypeError

text \<open>
  What the code takes from the JavaScript platform: \<^verbatim>\<open>JSON.parse\<close> (\<open>None\<close> when it throws
  a SyntaxError), the test whether a number is \<open>0\<close> or \<open>-0\<close>, and \<^verbatim>\<open>Number.prototype.toString\<close>.
\<close>

record 'n platform =
  JSON_parse :: "string \<Rightarrow> 'n json option"
  Number_isZero :: "'n \<Rightarrow> bool"
  Number_toString :: "'n \<Rightarrow> string"

text \<open>
  \<^verbatim>\<open>v.k\<close> for a key \<open>k\<close> that no prototype defines (the code reads \<^verbatim>\<open>choices\<close>,
  \<^verbatim>\<open>delta\<close>, \<^verbatim>\<open>message\<close> and \<^verbatim>\<open>content\<close>): a TypeError on \<^verbatim>\<open>undefined\<close> and \<^verbatim>\<open>null\<close>, the own
  property of an object (the last binding of a repeated key), \<^verbatim>\<open>undefined\<close> otherwise.
\<close>

fun member_js :: "'n jsval \<Rightarrow> string \<Rightarrow> js_error + 'n jsval" where
  "member_js None k = Inl TypeError"
| "member_js (Some JNull) k = Inl TypeError"
| "member_js (Some (JObj kvs)) k = Inr (map_of (rev kvs) k)"
| "member_js (Some v) k = Inr None"

text \<open>
  \<^verbatim>\<open>v[0]\<close>: the first element of an array, the first code unit of a string (for a
  character outside the Basic Multilingual Plane that is a lone surrogate, which has no
  representation here; every property the code reads from the result is \<^verbatim>\<open>undefined\<close> for
  any string), the own property \<^verbatim>\<open>"0"\<close> of an object.
\<close>

fun index0 :: "'n jsval \<Rightarrow> js_error + 'n jsval" where
  "index0 None = Inl TypeError"
| "index0 (Some JNull) = Inl TypeError"
| "index0 (Some (JArr xs)) = Inr (case xs of [] \<Rightarrow> None | x # _ \<Rightarrow> Some x)"
| "index0 (Some (JStr s)) = Inr (if s = [] then None else Some (JStr (take 1 s)))"
| "index0 (Some (JObj kvs)) = Inr (map_of (rev kvs) ''0'')"
| "index0 (Some v) = Inr None"

text \<open>\<^verbatim>\<open>v?.k\<close>: \<^verbatim>\<open>undefined\<close> on \<^verbatim>\<open>undefined\<close> and \<^verbatim>\<open>null\<close>, \<^verbatim>\<open>v.k\<close> otherwise.\<close>

fun optional_member :: "'n jsval \<Rightarrow> string \<Rightarrow> 'n jsval" where
  "optional_member None k = None"
| "optional_member (Some JNull) k = None"
| "optional_member (Some (JObj kvs)) k = map_of (rev kvs) k"
| "optional_member (Some v) k = None"

text \<open>The values that \<^verbatim>\<open>||\<close> treats as false.\<close>

fun falsy :: "'n platform \<Rightarrow> 'n jsval \<Rightarrow> bool" where
  "falsy P None = True"
| "falsy P (Some JNull) = True"
| "falsy P (Some (JBool b)) = (\<not> b)"
| "falsy P (Some (JNum n)) = Number_isZero P n"
| "falsy P (Some (JStr s)) = (s = [])"
| "falsy P (Some v) = False"

text \<open>Array.prototype.join with the separator \<^verbatim>\<open>","\<close>, on the printed elements.\<close>

fun join_comma :: "string list \<Rightarrow> string" where
  "join_comma [] = []"
| "join_comma [x] = x"
| "join_comma (x # y # ys) = x @ '','' @ join_comma (y # ys)"

text \<open>The results of a list of conversions: the first exception, or all the values.\<close>

fun collect :: "('e + 'a) list \<Rightarrow> 'e + 'a list" where
  "collect [] = Inr []"
| "collect (Inl e # rs) = Inl e"
| "collect (Inr x # rs) = (case collect rs of Inl e \<Rightarrow> Inl e | Inr xs \<Rightarrow> Inr (x # xs))"

text \<open>
  ToString: what \<^verbatim>\<open>response += text\<close> and \<^verbatim>\<open>encoder.encode(text)\<close> make of a value. An object
  made by \<^verbatim>\<open>JSON.parse\<close> prints through \<^verbatim>\<open>Object.prototype.toString\<close> unless it has a
  \<^verbatim>\<open>toString\<close> property of its own, which is a JSON value and cannot be called: then the
  conversion throws a TypeError (\<^verbatim>\<open>valueOf\<close>, own or inherited, never yields a primitive).
  An array prints its elements joined by commas, \<^verbatim>\<open>null\<close> as the empty string, and throws
  when an element does.
\<close>

fun toString_js :: "'n platform \<Rightarrow> 'n json \<Rightarrow> js_error + string" where
  "toString_js P JNull = Inr ''null''"
| "toString_js P (JBool b) = Inr (if b then ''true'' else ''false'')"
| "toString_js P (JNum n) = Inr (Number_toString P n)"
| "toString_js P (JStr s) = Inr s"
| "toString_js P (JArr xs) =
     (case collect (map (\<lambda>x. case x of JNull \<Rightarrow> Inr [] | _ \<Rightarrow> toString_js P x) xs) of
        Inl e \<Rightarrow> Inl e
      | Inr printed \<Rightarrow> Inr (join_comma printed))"
| "toString_js P (JObj kvs) =
     (case map_of (rev kvs) ''toString'' of
        None \<Rightarrow> Inr ''[object Object]''
      | Some v \<Rightarrow> Inl TypeError)"

section \<open>The output stream's controller\<close>

text \<open>
  \<^verbatim>\<open>OpenAIStream\<close> builds a \<^verbatim>\<open>ReadableStream\<close> and writes to it through the stream's
  default controller. The controller belongs to the platform; its three methods and the
  reader's \<^verbatim>\<open>read\<close> are modelled after the Streams standard, with the default queuing
  strategy. \<open>enqueued\<close> lists the chunks that \<^verbatim>\<open>enqueue\<close> accepted, \<open>delivered\<close> those handed
  to the reader (\<^verbatim>\<open>main\<close> writes them to standard output), \<open>queue\<close> those waiting.
\<close>

datatype stream_state = Readable | Closed | Errored

record controller =
  state :: stream_state
  closeRequested :: bool
  queue :: "string list"
  readRequests :: nat
  storedError :: "js_error option"
  enqueued :: "string list"
  delivered :: "string list"

definition new_controller :: controller where
  "new_controller =
     \<lparr>state = Readable, closeRequested = False, queue = [], readRequests = 0,
      storedError = None, enqueued = [], delivered = []\<rparr>"

text \<open>ReadableStreamDefaultControllerCanCloseOrEnqueue.\<close>

definition canCloseOrEnqueue :: "controller \<Rightarrow> bool" where
  "canCloseOrEnqueue c \<longleftrightarrow> \<not> closeRequested c \<and> state c = Readable"

text \<open>
  \<^verbatim>\<open>controller.enqueue(chunk)\<close>: a TypeError unless the stream can take chunks; the chunk
  goes to a waiting read request if there is one, to the queue otherwise.
\<close>

definition enqueue :: "controller \<Rightarrow> string \<Rightarrow> js_error + controller" where
  "enqueue c chunk =
     (if \<not> canCloseOrEnqueue c then Inl TypeError
      else if 0 < readRequests c
        then Inr (c\<lparr>readRequests := readRequests c - 1,
                    enqueued := enqueued c @ [chunk],
                    delivered := delivered c @ [chunk]\<rparr>)
        else Inr (c\<lparr>queue := queue c @ [chunk], enqueued := enqueued c @ [chunk]\<rparr>))"

text \<open>
  \<^verbatim>\<open>controller.close()\<close>: a TypeError unless the stream can be closed; the stream closes
  at once when the queue is empty, and once the queue is read out otherwise.
\<close>

definition close :: "controller \<Rightarrow> js_error + controller" where
  "close c =
     (if \<not> canCloseOrEnqueue c then Inl TypeError
      else if queue c = []
        then Inr (c\<lparr>closeRequested := True, state := Closed, readRequests := 0\<rparr>)
        else Inr (c\<lparr>closeRequested := True\<rparr>))"

text \<open>
  \<^verbatim>\<open>controller.error(e)\<close>: nothing unless the stream is readable; else the queue is
  dropped and the stream is errored.
\<close>

definition error :: "controller \<Rightarrow> js_error \<Rightarrow> controller" where
  "error c e =
     (if state c \<noteq> Readable then c
      else c\<lparr>queue := [], state := Errored, storedError := Some e, readRequests := 0\<rparr>)"

text \<open>
  One \<^verbatim>\<open>reader.read()\<close> of the consumer (the \<^verbatim>\<open>for await\<close> loop of \<^verbatim>\<open>main\<close>): it takes the
  head of the queue, closing the stream when a requested close finds the queue empty, or
  waits as a read request.
\<close>

definition read :: "controller \<Rightarrow> controller" where
  "read c =
     (if state c \<noteq> Readable then c
      else case queue c of
        [] \<Rightarrow> c\<lparr>readRequests := readRequests c + 1\<rparr>
      | chunk # rest \<Rightarrow>
          (if closeRequested c \<and> rest = []
           then c\<lparr>queue := rest, delivered := delivered c @ [chunk], state := Closed\<rparr>
           else c\<lparr>queue := rest, delivered := delivered c @ [chunk]\<rparr>))"

section \<open>The Event Reducer: \<^verbatim>\<open>onParse\<close> in \<^verbatim>\<open>OpenAIStream\<close>\<close>

text \<open>The events that the SSE parser hands to \<^verbatim>\<open>onParse\<close>: \<^verbatim>\<open>event.type\<close> and \<^verbatim>\<open>event.data\<close>.\<close>

datatype sse_event = Event string | ReconnectInterval nat

text \<open>
  The variables that \<^verbatim>\<open>onParse\<close> closes over (\<open>counter\<close>, \<open>data\<close>, \<open>response\<close>, the
  controller), the calls of \<^verbatim>\<open>logger\<close> made so far with their arguments, and the exception
  that has left \<^verbatim>\<open>onParse\<close>, if one has: it ends the loop that feeds the parser.
\<close>

record 'n reducer =
  counter :: nat
  data :: "'n json"
  response :: string
  ctrl :: controller
  logged :: "(string \<times> 'n json) list"
  escaped :: "js_error option"

definition init :: "'n reducer" where
  "init = \<lparr>counter = 0, data = JObj [], response = [], ctrl = new_controller,
           logged = [], escaped = None\<rparr>"

text \<open>
  The text of an event: \<^verbatim>\<open>json.choices[0].delta?.content\<close>, or the empty string when that
  is a value that \<^verbatim>\<open>||\<close> treats as false.
\<close>

definition extract_text :: "'n platform \<Rightarrow> 'n json \<Rightarrow> js_error + 'n json" where
  "extract_text P json =
     (case member_js (Some json) ''choices'' of
        Inl e \<Rightarrow> Inl e
      | Inr choices \<Rightarrow>
          (case index0 choices of
             Inl e \<Rightarrow> Inl e
           | Inr c0 \<Rightarrow>
               (case member_js c0 ''delta'' of
                  Inl e \<Rightarrow> Inl e
                | Inr delta \<Rightarrow>
                    (case optional_member delta ''content'' of
                       None \<Rightarrow> Inr (JStr [])
                     | Some content \<Rightarrow>
                         (if falsy P (Some content) then Inr (JStr [])
                          else Inr content)))))"

definition newline :: char where
  "newline = CHR 0x0A"

text \<open>\<^verbatim>\<open>encoder.encode(text)\<close>: the UTF-8 bytes of the string, which represent it here.\<close>

definition encode :: "string \<Rightarrow> string" where
  "encode text = text"

text \<open>
  The body of the \<^verbatim>\<open>try\<close> block. \<open>Inl (e, s')\<close>: the exception \<open>e\<close> was thrown with the
  variables as in \<open>s'\<close>. \<^verbatim>\<open>response += text\<close> converts \<open>text\<close> to a string and throws, before it
  assigns, when the conversion does; the chunk that is encoded is the same string.
  \<^verbatim>\<open>text.match\<close> is only read while \<^verbatim>\<open>counter < 2\<close>, and is not a function when \<open>text\<close> is
  not a string.
\<close>

definition try_block :: "'n platform \<Rightarrow> 'n reducer \<Rightarrow> string \<Rightarrow> (js_error \<times> 'n reducer) + 'n reducer" where
  "try_block P s eventData =
     (case JSON_parse P eventData of
        None \<Rightarrow> Inl (SyntaxError, s)
      | Some json \<Rightarrow>
          (case extract_text P json of
             Inl e \<Rightarrow> Inl (e, s)
           | Inr text \<Rightarrow>
               (case toString_js P text of
                  Inl e \<Rightarrow> Inl (e, s)
                | Inr printed \<Rightarrow>
                    (let s1 = s\<lparr>response := response s @ printed, data := json\<rparr>;
                         emit = (case enqueue (ctrl s1) (encode printed) of
                                   Inl e \<Rightarrow> Inl (e, s1)
                                 | Inr c \<Rightarrow> Inr (s1\<lparr>ctrl := c, counter := counter s1 + 1\<rparr>))
                     in if counter s1 < 2
                        then (case text of
                                JStr t \<Rightarrow> if newline \<in> set t then Inr s1 else emit
                              | _ \<Rightarrow> Inl (TypeError, s1))
                        else emit))))"

text \<open>
  \<^verbatim>\<open>onParse(event)\<close>: the exception that leaves the call, if any, and the variables after
  it. The call of \<^verbatim>\<open>controller.close()\<close> stands outside the \<^verbatim>\<open>try\<close> block, after the call of
  \<^verbatim>\<open>logger\<close>.
\<close>

definition onParse :: "'n platform \<Rightarrow> 'n reducer \<Rightarrow> sse_event \<Rightarrow> js_error option \<times> 'n reducer" where
  "onParse P s event =
     (case event of
        ReconnectInterval _ \<Rightarrow> (None, s)
      | Event eventData \<Rightarrow>
          if eventData = ''[DONE]''
          then (let s1 = s\<lparr>logged := logged s @ [(response s, data s)]\<rparr>
                in case close (ctrl s1) of
                     Inl e \<Rightarrow> (Some e, s1)
                   | Inr c \<Rightarrow> (None, s1\<lparr>ctrl := c\<rparr>))
          else (case try_block P s eventData of
                  Inl (e, s') \<Rightarrow> (None, s'\<lparr>ctrl := error (ctrl s') e\<rparr>)
                | Inr s' \<Rightarrow> (None, s')))"

text \<open>
  What happens to the stream, in the order it happens: the parser hands an event to
  \<^verbatim>\<open>onParse\<close> (\<open>Feed\<close>; not after an exception has left \<^verbatim>\<open>onParse\<close>, which ends the loop in
  \<^verbatim>\<open>start\<close>), the consumer reads a chunk (\<open>Read\<close>), or the stream reacts to the rejected promise
  of \<^verbatim>\<open>start\<close> by erroring itself with the exception (\<open>StartRejected\<close>).
\<close>

datatype action = Feed sse_event | Read | StartRejected

definition step :: "'n platform \<Rightarrow> 'n reducer \<Rightarrow> action \<Rightarrow> 'n reducer" where
  "step P s a =
     (case a of
        Feed event \<Rightarrow>
          (if escaped s \<noteq> None then s
           else case onParse P s event of
                  (None, s') \<Rightarrow> s'
                | (Some e, s') \<Rightarrow> s'\<lparr>escaped := Some e\<rparr>)
      | Read \<Rightarrow> s\<lparr>ctrl := read (ctrl s)\<rparr>
      | StartRejected \<Rightarrow>
          (case escaped s of
             None \<Rightarrow> s
           | Some e \<Rightarrow> s\<lparr>ctrl := error (ctrl s) e\<rparr>))"

definition run :: "'n platform \<Rightarrow> 'n reducer \<Rightarrow> action list \<Rightarrow> 'n reducer" where
  "run P s as = foldl (step P) s as"

text \<open>The reducer is in the spec's state STREAMING: nothing has ended the stream yet.\<close>

definition streaming :: "'n reducer \<Rightarrow> bool" where
  "streaming s \<longleftrightarrow> canCloseOrEnqueue (ctrl s) \<and> escaped s = None"

section \<open>\<^verbatim>\<open>String.prototype.trim\<close> and \<^verbatim>\<open>unwrapMarkdown\<close>\<close>

text \<open>
  The white space and line terminators of JavaScript, in UTF-8: TAB, LF, VT, FF, CR, SP,
  U+00A0, U+1680, U+2000 to U+200A, U+2028, U+2029, U+202F, U+205F, U+3000 and U+FEFF.
\<close>

definition whitespace :: "string list" where
  "whitespace =
     [[CHR 0x09], [CHR 0x0A], [CHR 0x0B], [CHR 0x0C], [CHR 0x0D], [CHR 0x20],
      [CHR 0xC2, CHR 0xA0],
      [CHR 0xE1, CHR 0x9A, CHR 0x80],
      [CHR 0xE2, CHR 0x80, CHR 0x80], [CHR 0xE2, CHR 0x80, CHR 0x81],
      [CHR 0xE2, CHR 0x80, CHR 0x82], [CHR 0xE2, CHR 0x80, CHR 0x83],
      [CHR 0xE2, CHR 0x80, CHR 0x84], [CHR 0xE2, CHR 0x80, CHR 0x85],
      [CHR 0xE2, CHR 0x80, CHR 0x86], [CHR 0xE2, CHR 0x80, CHR 0x87],
      [CHR 0xE2, CHR 0x80, CHR 0x88], [CHR 0xE2, CHR 0x80, CHR 0x89],
      [CHR 0xE2, CHR 0x80, CHR 0x8A],
      [CHR 0xE2, CHR 0x80, CHR 0xA8], [CHR 0xE2, CHR 0x80, CHR 0xA9],
      [CHR 0xE2, CHR 0x80, CHR 0xAF],
      [CHR 0xE2, CHR 0x81, CHR 0x9F],
      [CHR 0xE3, CHR 0x80, CHR 0x80],
      [CHR 0xEF, CHR 0xBB, CHR 0xBF]]"

definition startsWith :: "string \<Rightarrow> string \<Rightarrow> bool" where
  "startsWith s w \<longleftrightarrow> take (length w) s = w"

text \<open>Dropping from the front of \<open>s\<close> every leading occurrence of a sequence of \<open>ws\<close>.\<close>

function strip_leading :: "string list \<Rightarrow> string \<Rightarrow> string" where
  "strip_leading ws s =
     (case find (\<lambda>w. w \<noteq> [] \<and> startsWith s w) ws of
        None \<Rightarrow> s
      | Some w \<Rightarrow> strip_leading ws (drop (length w) s))"
  by pat_completeness auto
termination
proof (relation "measure (\<lambda>(ws, s). length s)")
  show "wf (measure (\<lambda>(ws, s). length s))" by simp
next
  fix ws :: "string list" and s w :: string
  assume "find (\<lambda>w. w \<noteq> [] \<and> startsWith s w) ws = Some w"
  then have "w \<noteq> []" and "take (length w) s = w"
    by (auto simp: find_Some_iff startsWith_def)
  then have "s \<noteq> []" by auto
  with \<open>w \<noteq> []\<close> show "((ws, drop (length w) s), (ws, s)) \<in> measure (\<lambda>(ws, s). length s)"
    by simp
qed

declare strip_leading.simps [simp del]

definition trim :: "string \<Rightarrow> string" where
  "trim s = rev (strip_leading (map rev whitespace) (rev (strip_leading whitespace s)))"

text \<open>\<^verbatim>\<open>content.split("\n")\<close> and \<^verbatim>\<open>lines.join("\n")\<close>.\<close>

fun split_newline :: "string \<Rightarrow> string list" where
  "split_newline [] = [[]]"
| "split_newline (c # cs) =
     (if c = newline then [] # split_newline cs
      else case split_newline cs of
             [] \<Rightarrow> [[c]]
           | l # ls \<Rightarrow> (c # l) # ls)"

fun join_newline :: "string list \<Rightarrow> string" where
  "join_newline [] = []"
| "join_newline [l] = l"
| "join_newline (l # m # ls) = l @ [newline] @ join_newline (m # ls)"

text \<open>
  \<^verbatim>\<open>unwrapMarkdown(content)\<close>. When \<^verbatim>\<open>lines.shift()\<close> has emptied the array,
  \<^verbatim>\<open>lines[lines.length - 1]\<close> is \<^verbatim>\<open>undefined\<close> and \<^verbatim>\<open>.trim()\<close> throws.
\<close>

definition unwrapMarkdown :: "string \<Rightarrow> js_error + string" where
  "unwrapMarkdown content =
     (case split_newline content of
        [] \<Rightarrow> Inl TypeError
      | first # rest \<Rightarrow>
          (let lines = (if startsWith (trim first) ''```'' then rest else first # rest)
           in if lines = [] then Inl TypeError
              else if trim (last lines) = ''```'' then Inr (join_newline (butlast lines))
              else Inr (join_newline lines)))"

section \<open>The command: the action of \<^verbatim>\<open>main\<close>\<close>

text \<open>\<^verbatim>\<open>program.opts()\<close>. \<open>model\<close> is the value of \<^verbatim>\<open>--model\<close>, which the action never reads.\<close>

record args =
  code :: bool
  log :: bool
  system :: "string option"
  gpt4 :: bool
  model :: "string option"
  stream :: bool

definition CODE_SYSTEM_PROMPT :: string where
  "CODE_SYSTEM_PROMPT =
     ''You are an expert code generating tool. Return just the code, with no explanation''
     @ [newline] @ ''or context. The code has to be well commented.''"

text \<open>The variable \<^verbatim>\<open>model\<close> of the action.\<close>

definition model_name :: "args \<Rightarrow> string" where
  "model_name a = (if gpt4 a then ''gpt-4'' else ''gpt-3.5-turbo'')"

text \<open>
  The variable \<^verbatim>\<open>system\<close> of the action; \<open>today\<close> is \<^verbatim>\<open>new Date().toISOString().slice(0, 10)\<close>.
  An empty \<^verbatim>\<open>--system\<close> counts as none.
\<close>

definition system_text :: "args \<Rightarrow> string \<Rightarrow> string" where
  "system_text a today =
     (if code a then CODE_SYSTEM_PROMPT
      else case system a of
        Some sys \<Rightarrow>
          if sys \<noteq> [] then sys
          else ''You are ChatGPT, a large language model trained by OpenAI. Answer as concisely as possible. Knowledge cutoff: 2021-09-01. Current date: '' @ today
      | None \<Rightarrow> ''You are ChatGPT, a large language model trained by OpenAI. Answer as concisely as possible. Knowledge cutoff: 2021-09-01. Current date: '' @ today)"

text \<open>A call \<^verbatim>\<open>log({prompt, model, system, response, data})\<close> of the logging function.\<close>

datatype 'n log_call = Log string string string string "'n json"

text \<open>
  \<^verbatim>\<open>logger({response, data})\<close>, the closure handed to \<^verbatim>\<open>OpenAIStream\<close>: the calls of \<^verbatim>\<open>log\<close>
  that one call of it makes.
\<close>

definition logger :: "args \<Rightarrow> string \<Rightarrow> string \<Rightarrow> string \<times> 'n json \<Rightarrow> 'n log_call list" where
  "logger a expandedPrompt today rd =
     (if log a
      then [Log expandedPrompt (model_name a) (system_text a today) (fst rd) (snd rd)]
      else [])"

datatype ending = Returned | Uncaught js_error

text \<open>
  What an invocation does: the calls of \<^verbatim>\<open>logger\<close> with their arguments, the calls of
  \<^verbatim>\<open>log\<close>, what is written to standard output after the line that announces the prompt
  (\<^verbatim>\<open>console.log\<close> ends its argument with a line feed), and how the action ends.
\<close>

record 'n outcome =
  logger_calls :: "(string \<times> 'n json) list"
  log_calls :: "'n log_call list"
  stdout :: "string list"
  ended :: ending

text \<open>\<^verbatim>\<open>data.choices[0].message.content.trim()\<close>.\<close>

definition message_content :: "'n json \<Rightarrow> js_error + string" where
  "message_content d =
     (case member_js (Some d) ''choices'' of
        Inl e \<Rightarrow> Inl e
      | Inr choices \<Rightarrow>
          (case index0 choices of
             Inl e \<Rightarrow> Inl e
           | Inr c0 \<Rightarrow>
               (case member_js c0 ''message'' of
                  Inl e \<Rightarrow> Inl e
                | Inr message \<Rightarrow>
                    (case member_js message ''content'' of
                       Inl e \<Rightarrow> Inl e
                     | Inr (Some (JStr content)) \<Rightarrow> Inr (trim content)
                     | Inr _ \<Rightarrow> Inl TypeError))))"

text \<open>
  The action from the request on, for a prompt that is not empty and options that do not
  combine \<^verbatim>\<open>--code\<close> with \<^verbatim>\<open>--system\<close>; the API key is there and the server answers. With
  \<^verbatim>\<open>--stream\<close>, \<open>as\<close> is what happens to the stream (the events fed and the reads of the
  \<^verbatim>\<open>for await\<close> loop, which writes each chunk it reads); without it, \<open>d\<close> is the document
  that \<^verbatim>\<open>res.json()\<close> yields, and the action logs, then prints.
\<close>

definition request ::
  "'n platform \<Rightarrow> args \<Rightarrow> string \<Rightarrow> string \<Rightarrow> action list \<Rightarrow> 'n json \<Rightarrow> 'n outcome" where
  "request P a expandedPrompt today as d =
     (if stream a
      then (let s = run P init as
            in \<lparr>logger_calls = logged s,
                log_calls = concat (map (logger a expandedPrompt today) (logged s)),
                stdout = delivered (ctrl s),
                ended = (case storedError (ctrl s) of None \<Rightarrow> Returned | Some e \<Rightarrow> Uncaught e)\<rparr>)
      else (case message_content d of
              Inl e \<Rightarrow> \<lparr>logger_calls = [], log_calls = [], stdout = [], ended = Uncaught e\<rparr>
            | Inr response' \<Rightarrow>
                (let calls = logger a expandedPrompt today (response', d)
                 in if code a
                    then (case unwrapMarkdown response' of
                            Inl e \<Rightarrow>
                              \<lparr>logger_calls = [(response', d)], log_calls = calls, stdout = [],
                               ended = Uncaught e\<rparr>
                          | Inr unwrapped \<Rightarrow>
                              \<lparr>logger_calls = [(response', d)], log_calls = calls,
                               stdout = [[newline] @ unwrapped @ [newline, newline] @ [newline]],
                               ended = Returned\<rparr>)
                    else \<lparr>logger_calls = [(response', d)], log_calls = calls,
                          stdout = [response' @ [newline]], ended = Returned\<rparr>)))"


text \<open>The document \<^verbatim>\<open>{"choices":[{"message":{"content": t}}]}\<close> of a plain answer.\<close>

definition message_doc :: "string \<Rightarrow> 'n json" where
  "message_doc t = JObj [(''choices'', JArr [JObj [(''message'', JObj [(''content'', JStr t)])]])]"

section \<open>What the specification speaks of\<close>

text \<open>
  The text fragment extracted from an event: the text, as a string, of a payload that is
  not the sentinel, parses, and yields a text that has a string form; nothing for every
  other action.
\<close>

definition fragment :: "'n platform \<Rightarrow> action \<Rightarrow> string" where
  "fragment P a =
     (case a of
        Feed (Event d) \<Rightarrow>
          (if d = ''[DONE]'' then []
           else case JSON_parse P d of
                  None \<Rightarrow> []
                | Some json \<Rightarrow>
                    (case extract_text P json of
                       Inl e \<Rightarrow> []
                     | Inr text \<Rightarrow>
                         (case toString_js P text of Inl e \<Rightarrow> [] | Inr printed \<Rightarrow> printed)))
      | _ \<Rightarrow> [])"

text \<open>
  The fragments that pass the test on \<^verbatim>\<open>text.match(/\n/)\<close>: the strings that hold no
  newline.
\<close>

definition without_newline :: "'n json \<Rightarrow> bool" where
  "without_newline text = (case text of JStr u \<Rightarrow> newline \<notin> set u | _ \<Rightarrow> False)"

text \<open>The document \<^verbatim>\<open>{"choices":[{"delta":{"content": v}}]}\<close>.\<close>

definition content_doc :: "'n json \<Rightarrow> 'n json" where
  "content_doc v = JObj [(''choices'', JArr [JObj [(''delta'', JObj [(''content'', v)])]])]"

text \<open>
  The metadata after an action: the document of the payload when the action feeds a payload
  that is not the sentinel and parses, the metadata before it otherwise.
\<close>

definition last_parsed :: "'n platform \<Rightarrow> 'n json \<Rightarrow> action \<Rightarrow> 'n json" where
  "last_parsed P m a =
     (case a of
        Feed (Event d) \<Rightarrow>
          (if d = ''[DONE]'' then m
           else case JSON_parse P d of None \<Rightarrow> m | Some json \<Rightarrow> json)
      | _ \<Rightarrow> m)"

text \<open>The payloads fed by a list of actions, in order.\<close>

fun payloads :: "action list \<Rightarrow> string list" where
  "payloads [] = []"
| "payloads (Feed (Event d) # as) = d # payloads as"
| "payloads (a # as) = payloads as"

text \<open>Before the first sentinel: no call of the logger, no close, no exception out of \<open>onParse\<close>.\<close>

definition unfinished :: "'n reducer \<Rightarrow> bool" where
  "unfinished s \<longleftrightarrow>
     escaped s = None \<and> \<not> closeRequested (ctrl s) \<and> state (ctrl s) \<noteq> Closed \<and> logged s = []"

section \<open>A platform for concrete runs\<close>

text \<open>
  To run the model on given payloads, \<^verbatim>\<open>JSON.parse\<close> is a table from payloads to the values
  they denote (a payload outside the table is a SyntaxError) and the numbers are the
  naturals, printed in decimal.
\<close>

fun decimal :: "nat \<Rightarrow> string" where
  "decimal n =
     (if n < 10 then [char_of (48 + n)]
      else decimal (n div 10) @ [char_of (48 + n mod 10)])"

definition table_platform :: "(string \<times> nat json) list \<Rightarrow> nat platform" where
  "table_platform tbl =
     \<lparr>JSON_parse = map_of tbl, Number_isZero = (\<lambda>n. n = 0), Number_toString = decimal\<rparr>"

text \<open>The document \<^verbatim>\<open>{"choices":[{"delta":{"content": t}}]}\<close>.\<close>

definition delta_doc :: "string \<Rightarrow> 'n json" where
  "delta_doc t = JObj [(''choices'', JArr [JObj [(''delta'', JObj [(''content'', JStr t)])]])]"

section \<open>The controller once it refuses chunks\<close>

lemma canCloseOrEnqueue_read: "\<not> canCloseOrEnqueue c \<Longrightarrow> \<not> canCloseOrEnqueue (read c)"
  by (auto simp: canCloseOrEnqueue_def read_def split: list.splits)

lemma canCloseOrEnqueue_error: "\<not> canCloseOrEnqueue (error c e)"
  by (auto simp: canCloseOrEnqueue_def error_def)

lemma enqueued_read: "enqueued (read c) = enqueued c"
  by (auto simp: read_def split: list.splits)

lemma enqueued_error: "enqueued (error c e) = enqueued c"
  by (auto simp: error_def)

lemma enqueue_refused: "\<not> canCloseOrEnqueue c \<Longrightarrow> enqueue c x = Inl TypeError"
  by (simp add: enqueue_def)

lemma close_refused: "\<not> canCloseOrEnqueue c \<Longrightarrow> close c = Inl TypeError"
  by (simp add: close_def)

lemma enqueue_accepted:
  "canCloseOrEnqueue c \<Longrightarrow>
     \<exists>c'. enqueue c x = Inr c' \<and> canCloseOrEnqueue c' \<and> enqueued c' = enqueued c @ [x]"
  by (auto simp: enqueue_def canCloseOrEnqueue_def)

lemma close_accepted:
  "canCloseOrEnqueue c \<Longrightarrow>
     \<exists>c'. close c = Inr c' \<and> closeRequested c' \<and> enqueued c' = enqueued c
        \<and> (queue c = [] \<longrightarrow> state c' = Closed) \<and> (queue c \<noteq> [] \<longrightarrow> state c' = Readable)"
  by (auto simp: close_def canCloseOrEnqueue_def)

text \<open>What the try block leaves alone.\<close>

lemma try_block_Inr:
  "try_block P s d = Inr s' \<Longrightarrow>
     logged s' = logged s \<and> escaped s' = escaped s
     \<and> (\<not> canCloseOrEnqueue (ctrl s) \<longrightarrow> ctrl s' = ctrl s)"
  by (auto simp: try_block_def enqueue_refused Let_def
      split: option.splits sum.splits json.splits if_splits)

lemma try_block_Inl:
  "try_block P s d = Inl (e, s') \<Longrightarrow>
     logged s' = logged s \<and> escaped s' = escaped s \<and> ctrl s' = ctrl s \<and> counter s' = counter s"
  by (auto simp: try_block_def Let_def
      split: option.splits sum.splits json.splits if_splits)

text \<open>The sentinel.\<close>

lemma onParse_DONE:
  "onParse P s (Event ''[DONE]'') =
     (case close (ctrl s) of
        Inl e \<Rightarrow> (Some e, s\<lparr>logged := logged s @ [(response s, data s)]\<rparr>)
      | Inr c \<Rightarrow> (None, s\<lparr>logged := logged s @ [(response s, data s)], ctrl := c\<rparr>))"
  by (simp add: onParse_def Let_def split: sum.splits)

lemma onParse_delta:
  "d \<noteq> ''[DONE]'' \<Longrightarrow>
   onParse P s (Event d) =
     (case try_block P s d of
        Inl (e, s') \<Rightarrow> (None, s'\<lparr>ctrl := error (ctrl s') e\<rparr>)
      | Inr s' \<Rightarrow> (None, s'))"
  by (simp add: onParse_def)

lemma step_Read: "step P s Read = s\<lparr>ctrl := read (ctrl s)\<rparr>"
  by (simp add: step_def)

lemma step_escaped: "escaped s \<noteq> None \<Longrightarrow> step P s (Feed ev) = s"
  by (simp add: step_def)

lemma escaped_step: "escaped s = Some e \<Longrightarrow> escaped (step P s a) = Some e"
  by (auto simp: step_def split: action.splits)

text \<open>Once the stream cannot take chunks, it never takes one again.\<close>

lemma refused_step:
  assumes "\<not> canCloseOrEnqueue (ctrl s)"
  shows "\<not> canCloseOrEnqueue (ctrl (step P s a)) \<and> enqueued (ctrl (step P s a)) = enqueued (ctrl s)"
proof (cases a)
  case (Feed ev)
  show ?thesis
  proof (cases ev)
    case (Event d)
    show ?thesis
    proof (cases "d = ''[DONE]''")
      case True
      with assms Feed Event show ?thesis
        by (simp add: step_def onParse_DONE close_refused)
    next
      case False
      with assms Feed Event show ?thesis
        by (auto simp: step_def onParse_delta canCloseOrEnqueue_error enqueued_error
            split: sum.splits prod.splits dest!: try_block_Inr try_block_Inl)
    qed
  next
    case (ReconnectInterval n)
    with assms Feed show ?thesis by (simp add: step_def onParse_def)
  qed
next
  case Read
  with assms show ?thesis by (simp add: step_Read canCloseOrEnqueue_read enqueued_read)
next
  case StartRejected
  with assms show ?thesis
    by (simp add: step_def canCloseOrEnqueue_error enqueued_error split: option.splits)
qed

lemma refused_run:
  "\<not> canCloseOrEnqueue (ctrl s) \<Longrightarrow>
     \<not> canCloseOrEnqueue (ctrl (run P s as)) \<and> enqueued (ctrl (run P s as)) = enqueued (ctrl s)"
  unfolding run_def
proof (induction as arbitrary: s)
  case Nil
  then show ?case by simp
next
  case (Cons a as)
  from refused_step [OF Cons.prems, of P a] Cons.IH [of "step P s a"]
  show ?case by simp
qed

text \<open>After an exception has left \<open>onParse\<close>, only the controller changes.\<close>

lemma halted_step:
  assumes "escaped s \<noteq> None"
  shows "logged (step P s a) = logged s \<and> response (step P s a) = response s
       \<and> data (step P s a) = data s \<and> counter (step P s a) = counter s
       \<and> escaped (step P s a) = escaped s"
  using assms by (cases a) (auto simp: step_def)

lemma halted_run:
  "escaped s \<noteq> None \<Longrightarrow>
     logged (run P s as) = logged s \<and> response (run P s as) = response s
     \<and> data (run P s as) = data s \<and> counter (run P s as) = counter s
     \<and> escaped (run P s as) = escaped s"
  unfolding run_def
proof (induction as arbitrary: s)
  case Nil
  then show ?case by simp
next
  case (Cons a as)
  from halted_step [OF Cons.prems, of P a] have "escaped (step P s a) \<noteq> None"
    using Cons.prems by simp
  from Cons.IH [OF this] halted_step [OF Cons.prems, of P a] show ?case by simp
qed

text \<open>A step of a stream that refuses chunks logs only by a sentinel, whose \<open>close\<close> throws.\<close>

lemma refused_step_logged:
  assumes "\<not> canCloseOrEnqueue (ctrl s)" and "escaped s = None"
  shows "logged (step P s a) = logged s \<and> escaped (step P s a) = None
       \<or> logged (step P s a) = logged s @ [(response s, data s)]
           \<and> escaped (step P s a) = Some TypeError \<and> a = Feed (Event ''[DONE]'')"
proof (cases a)
  case (Feed ev)
  show ?thesis
  proof (cases ev)
    case (Event d)
    show ?thesis
    proof (cases "d = ''[DONE]''")
      case True
      with assms Feed Event show ?thesis
        by (simp add: step_def onParse_DONE close_refused)
    next
      case False
      with assms Feed Event show ?thesis
        by (auto simp: step_def onParse_delta
            split: sum.splits prod.splits dest!: try_block_Inr try_block_Inl)
    qed
  next
    case (ReconnectInterval n)
    with assms Feed show ?thesis by (simp add: step_def onParse_def)
  qed
next
  case Read
  with assms show ?thesis by (simp add: step_Read)
next
  case StartRejected
  with assms show ?thesis by (simp add: step_def)
qed

lemma refused_run_logged:
  assumes "\<not> canCloseOrEnqueue (ctrl s)"
  shows "length (logged (run P s as)) \<le> length (logged s) + 1"
  using assms
proof (induction as arbitrary: s)
  case Nil
  then show ?case by (simp add: run_def)
next
  case (Cons a as)
  have run_Cons: "run P s (a # as) = run P (step P s a) as"
    by (simp add: run_def)
  show ?case
  proof (cases "escaped s = None")
    case False
    then show ?thesis using halted_run [of s P "a # as"] by simp
  next
    case True
    from refused_step_logged [OF Cons.prems True, of P a]
    show ?thesis
    proof
      assume same: "logged (step P s a) = logged s \<and> escaped (step P s a) = None"
      from refused_step [OF Cons.prems, of P a] have "\<not> canCloseOrEnqueue (ctrl (step P s a))"
        by simp
      from Cons.IH [OF this] same show ?thesis by (simp add: run_Cons)
    next
      assume thrown: "logged (step P s a) = logged s @ [(response s, data s)]
           \<and> escaped (step P s a) = Some TypeError \<and> a = Feed (Event ''[DONE]'')"
      then have l: "logged (step P s a) = logged s @ [(response s, data s)]"
        and e: "escaped (step P s a) \<noteq> None" by auto
      from halted_run [OF e, of P as] l show ?thesis
        unfolding run_Cons by simp
    qed
  qed
qed

text \<open>A reducer that is streaming has been streaming all along.\<close>

lemma streaming_step_back: "streaming (step P s a) \<Longrightarrow> streaming s"
  unfolding streaming_def
  using refused_step [of s P a] escaped_step [of s _ P a] by (cases "escaped s") auto

lemma run_snoc: "run P s (as @ [a]) = step P (run P s as) a"
  by (simp add: run_def)

text \<open>One step of a reducer that goes on streaming.\<close>

lemma streaming_step_payload:
  assumes "streaming (step P s (Feed (Event d)))"
  shows "d \<noteq> ''[DONE]''
       \<and> (\<exists>json text printed. JSON_parse P d = Some json \<and> extract_text P json = Inr text
              \<and> toString_js P text = Inr printed)"
proof -
  from assms have s: "streaming s" by (rule streaming_step_back)
  then have e: "escaped s = None" and c: "canCloseOrEnqueue (ctrl s)"
    by (simp_all add: streaming_def)
  have d: "d \<noteq> ''[DONE]''"
  proof
    assume "d = ''[DONE]''"
    with assms e close_accepted [OF c] show False
      by (auto simp: step_def onParse_DONE streaming_def canCloseOrEnqueue_def)
  qed
  from assms e d show ?thesis
    by (auto simp: step_def onParse_delta streaming_def try_block_def canCloseOrEnqueue_error
        split: sum.splits prod.splits option.splits)
qed

lemma streaming_step_logged:
  assumes "streaming (step P s a)"
  shows "logged (step P s a) = logged s"
proof (cases a)
  case (Feed ev)
  show ?thesis
  proof (cases ev)
    case (Event d)
    from assms have e: "escaped s = None"
      using streaming_step_back [OF assms] by (simp add: streaming_def)
    from streaming_step_payload assms Feed Event have "d \<noteq> ''[DONE]''" by blast
    with e Feed Event show ?thesis
      by (auto simp: step_def onParse_delta
          split: sum.splits prod.splits dest!: try_block_Inr try_block_Inl)
  next
    case (ReconnectInterval n)
    with Feed show ?thesis by (simp add: step_def onParse_def)
  qed
next
  case Read
  then show ?thesis by (simp add: step_Read)
next
  case StartRejected
  then show ?thesis by (simp add: step_def split: option.splits)
qed

lemma streaming_run_logged: "streaming (run P s as) \<Longrightarrow> logged (run P s as) = logged s"
proof (induction as rule: rev_induct)
  case Nil
  then show ?case by (simp add: run_def)
next
  case (snoc a as)
  from snoc.prems have st: "streaming (step P (run P s as) a)" by (simp add: run_snoc)
  from streaming_step_logged [OF st] snoc.IH [OF streaming_step_back [OF st]]
  show ?case by (simp add: run_snoc)
qed

text \<open>The accumulated text, while no exception has left \<open>onParse\<close>.\<close>

lemma try_block_response:
  "try_block P s d = Inr s' \<Longrightarrow> response s' = response s @ fragment P (Feed (Event d))"
  "try_block P s d = Inl (e, s') \<Longrightarrow> response s' = response s @ fragment P (Feed (Event d))"
  if "d \<noteq> ''[DONE]''"
  using that
  by (auto simp: try_block_def fragment_def Let_def
      split: option.splits sum.splits json.splits if_splits)

lemma response_step:
  assumes "escaped (step P s a) = None"
  shows "response (step P s a) = response s @ fragment P a"
proof (cases a)
  case (Feed ev)
  from assms have e: "escaped s = None"
    using escaped_step [of s _ P a] by (cases "escaped s") auto
  show ?thesis
  proof (cases ev)
    case (Event d)
    show ?thesis
    proof (cases "d = ''[DONE]''")
      case True
      with e Feed Event show ?thesis
        by (auto simp: step_def onParse_DONE fragment_def split: sum.splits)
    next
      case False
      with e Feed Event show ?thesis
        by (auto simp: step_def onParse_delta try_block_response
            split: sum.splits prod.splits)
    qed
  next
    case (ReconnectInterval n)
    with Feed show ?thesis by (simp add: step_def onParse_def fragment_def)
  qed
next
  case Read
  then show ?thesis by (simp add: step_Read fragment_def)
next
  case StartRejected
  then show ?thesis by (simp add: step_def fragment_def split: option.splits)
qed

lemma escaped_step_back: "escaped (step P s a) = None \<Longrightarrow> escaped s = None"
  using escaped_step [of s _ P a] by (cases "escaped s") auto

lemma response_run:
  "escaped (run P s as) = None \<Longrightarrow>
     response (run P s as) = response s @ concat (map (fragment P) as)"
proof (induction as rule: rev_induct)
  case Nil
  then show ?case by (simp add: run_def)
next
  case (snoc a as)
  from snoc.prems have e: "escaped (step P (run P s as) a) = None" by (simp add: run_snoc)
  from response_step [OF e] snoc.IH [OF escaped_step_back [OF e]]
  show ?case by (simp add: run_snoc)
qed

text \<open>The conversions of JavaScript on sample values.\<close>

lemma falsy_values:
  "falsy P None \<and> falsy P (Some JNull) \<and> falsy P (Some (JBool False))
   \<and> \<not> falsy P (Some (JBool True)) \<and> falsy P (Some (JStr []))
   \<and> \<not> falsy P (Some (JStr ''0'')) \<and> \<not> falsy P (Some (JArr [])) \<and> \<not> falsy P (Some (JObj []))
   \<and> falsy P (Some (JNum n)) = Number_isZero P n"
  by simp

lemma toString_js_values:
  "toString_js P (JStr ''ab'') = Inr ''ab''
   \<and> toString_js P (JBool True) = Inr ''true''
   \<and> toString_js P (JObj [(''a'', JNull)]) = Inr ''[object Object]''
   \<and> toString_js P (JObj [(''toString'', JNull)]) = Inl TypeError
   \<and> toString_js P (JArr []) = Inr []
   \<and> toString_js P (JArr [JStr ''a'', JNull, JArr [JBool False, JStr ''b'']]) = Inr ''a,,false,b''
   \<and> toString_js P (JArr [JStr ''a'', JObj [(''toString'', JStr ''x'')]]) = Inl TypeError"
  by simp

text \<open>The definitions that a concrete run unfolds.\<close>

lemmas run_simps =
  run_def step_def onParse_def try_block_def extract_text_def delta_doc_def
  init_def new_controller_def enqueue_def close_def error_def read_def canCloseOrEnqueue_def
  encode_def newline_def table_platform_def fragment_def Let_def

section \<open>The claims\<close>

text \<open>
  Claim C8. Feeding the reducer the events with the payloads
  \<^verbatim>\<open>{"choices":[{"delta":{"content":"Hello"}}]}\<close>, \<^verbatim>\<open>{"choices":[{"delta":{"content":" world"}}]}\<close>
  and \<^verbatim>\<open>[DONE]\<close>, in that order, emits chunks whose concatenation is \<^verbatim>\<open>Hello world\<close>, and the
  completion callback is called once, with the response text \<^verbatim>\<open>Hello world\<close>. The two
  hypotheses say what \<^verbatim>\<open>JSON.parse\<close> makes of the two payloads.
\<close>

theorem hello_world:
  assumes \<open>JSON_parse P ''{"choices":[{"delta":{"content":"Hello"}}]}'' = Some (delta_doc ''Hello'')\<close>
    and \<open>JSON_parse P ''{"choices":[{"delta":{"content":" world"}}]}'' = Some (delta_doc '' world'')\<close>
  shows \<open>concat (enqueued (ctrl (run P init
            [Feed (Event ''{"choices":[{"delta":{"content":"Hello"}}]}''),
             Feed (Event ''{"choices":[{"delta":{"content":" world"}}]}''),
             Feed (Event ''[DONE]'')]))) = ''Hello world''
       \<and> map fst (logged (run P init
            [Feed (Event ''{"choices":[{"delta":{"content":"Hello"}}]}''),
             Feed (Event ''{"choices":[{"delta":{"content":" world"}}]}''),
             Feed (Event ''[DONE]'')])) = [''Hello world'']\<close>
  using assms by (simp add: run_simps)

text \<open>The hypotheses of C8 hold for the platform whose parser is the table of the two payloads.\<close>

theorem hello_world_witness:
  \<open>JSON_parse (table_platform
       [(''{"choices":[{"delta":{"content":"Hello"}}]}'', delta_doc ''Hello''),
        (''{"choices":[{"delta":{"content":" world"}}]}'', delta_doc '' world'')])
     ''{"choices":[{"delta":{"content":"Hello"}}]}'' = Some (delta_doc ''Hello'')
   \<and> JSON_parse (table_platform
       [(''{"choices":[{"delta":{"content":"Hello"}}]}'', delta_doc ''Hello''),
        (''{"choices":[{"delta":{"content":" world"}}]}'', delta_doc '' world'')])
     ''{"choices":[{"delta":{"content":" world"}}]}'' = Some (delta_doc '' world'')
   \<and> concat (enqueued (ctrl (run (table_platform
       [(''{"choices":[{"delta":{"content":"Hello"}}]}'', delta_doc ''Hello''),
        (''{"choices":[{"delta":{"content":" world"}}]}'', delta_doc '' world'')]) init
            [Feed (Event ''{"choices":[{"delta":{"content":"Hello"}}]}''),
             Feed (Event ''{"choices":[{"delta":{"content":" world"}}]}''),
             Feed (Event ''[DONE]'')]))) = ''Hello world''\<close>
proof -
  let ?P = \<open>table_platform
       [(''{"choices":[{"delta":{"content":"Hello"}}]}'', delta_doc ''Hello''),
        (''{"choices":[{"delta":{"content":" world"}}]}'', delta_doc '' world'')]\<close>
  have h1: \<open>JSON_parse ?P ''{"choices":[{"delta":{"content":"Hello"}}]}'' = Some (delta_doc ''Hello'')\<close>
    by (simp add: table_platform_def)
  have h2: \<open>JSON_parse ?P ''{"choices":[{"delta":{"content":" world"}}]}'' = Some (delta_doc '' world'')\<close>
    by (simp add: table_platform_def)
  from hello_world [OF h1 h2] h1 h2 show ?thesis by blast
qed

text \<open>
  Claim C5. At every point of a stream, that is as long as no exception has ended the
  feeding of events, the accumulated response text is the concatenation, in arrival order,
  of the fragments extracted from the events fed so far, whether they were shown or
  suppressed; and a sentinel received at that point hands this text to the completion
  callback. The fragment of an event whose extracted text is a string is that string.
\<close>

theorem response_is_concatenation:
  assumes "escaped (run P init as) = None"
  shows "response (run P init as) = concat (map (fragment P) as)
       \<and> logged (step P (run P init as) (Feed (Event ''[DONE]''))) =
           logged (run P init as) @ [(concat (map (fragment P) as), data (run P init as))]
       \<and> (\<forall>d json t. d \<noteq> ''[DONE]'' \<and> JSON_parse P d = Some json
              \<and> extract_text P json = Inr (JStr t)
            \<longrightarrow> fragment P (Feed (Event d)) = t)"
proof -
  from response_run [OF assms] have r: "response (run P init as) = concat (map (fragment P) as)"
    by (simp add: init_def)
  with assms show ?thesis
    by (auto simp: step_def onParse_DONE fragment_def split: sum.splits)
qed

text \<open>
  C5 on the spec's scenario of the fragments \<^verbatim>\<open>"\n"\<close>, \<^verbatim>\<open>"\n"\<close> and \<^verbatim>\<open>"ok"\<close>, of which only
  the last is shown.
\<close>

theorem response_is_concatenation_witness:
  "escaped (run (table_platform [(''a'', delta_doc [newline]), (''b'', delta_doc ''ok'')]) init
      [Feed (Event ''a''), Feed (Event ''a''), Feed (Event ''b'')]) = None
   \<and> response (run (table_platform [(''a'', delta_doc [newline]), (''b'', delta_doc ''ok'')]) init
      [Feed (Event ''a''), Feed (Event ''a''), Feed (Event ''b'')]) = [newline, newline] @ ''ok''
   \<and> enqueued (ctrl (run (table_platform [(''a'', delta_doc [newline]), (''b'', delta_doc ''ok'')]) init
      [Feed (Event ''a''), Feed (Event ''a''), Feed (Event ''b'')])) = [''ok'']"
proof -
  let ?P = "table_platform [(''a'', delta_doc [newline]), (''b'', delta_doc ''ok'')]"
  let ?as = "[Feed (Event ''a''), Feed (Event ''a''), Feed (Event ''b'')]"
  have e: "escaped (run ?P init ?as) = None"
    by (simp add: run_simps)
  have a: "''a'' \<noteq> ''[DONE]'' \<and> JSON_parse ?P ''a'' = Some (delta_doc [newline])
      \<and> extract_text ?P (delta_doc [newline]) = Inr (JStr [newline])"
    and b: "''b'' \<noteq> ''[DONE]'' \<and> JSON_parse ?P ''b'' = Some (delta_doc ''ok'')
      \<and> extract_text ?P (delta_doc ''ok'') = Inr (JStr ''ok'')"
    by (simp_all add: table_platform_def extract_text_def delta_doc_def)
  have q: "enqueued (ctrl (run ?P init ?as)) = [''ok'']"
    by (simp add: run_simps)
  from response_is_concatenation [OF e] have r: "response (run ?P init ?as) = concat (map (fragment ?P) ?as)"
    and f: "\<And>d json t. d \<noteq> ''[DONE]'' \<and> JSON_parse ?P d = Some json
              \<and> extract_text ?P json = Inr (JStr t) \<Longrightarrow> fragment ?P (Feed (Event d)) = t"
    by blast+
  from f [OF a] f [OF b] r e q show ?thesis by simp
qed

text \<open>
  Claim C2, as the code has it. Every non-sentinel event that is processed and yields a
  fragment (the payload parses, a text is extracted, and the text has a string form) has
  the fragment appended to the accumulated text. The fragment is emitted as it is, and the
  counter goes up by one, exactly when the reducer is in the state STREAMING and either
  the counter has reached 2 or the fragment is a string without a newline. So, while
  streaming with the counter below 2, a fragment with a newline is not emitted and the
  counter stays, as for a fragment that is not a string; and after a sentinel or an error
  no fragment is emitted and the counter stays.
\<close>

theorem suppression_policy:
  assumes "escaped s = None" and "d \<noteq> ''[DONE]''" and "JSON_parse P d = Some json"
    and "extract_text P json = Inr text" and "toString_js P text = Inr t"
  shows "response (step P s (Feed (Event d))) = response s @ t
       \<and> enqueued (ctrl (step P s (Feed (Event d)))) =
           (if streaming s \<and> (2 \<le> counter s \<or> without_newline text)
            then enqueued (ctrl s) @ [t] else enqueued (ctrl s))
       \<and> counter (step P s (Feed (Event d))) =
           (if streaming s \<and> (2 \<le> counter s \<or> without_newline text)
            then counter s + 1 else counter s)"
proof (cases "canCloseOrEnqueue (ctrl s)")
  case True
  with assms show ?thesis
    by (auto simp: step_def onParse_delta try_block_def enqueue_def streaming_def
        canCloseOrEnqueue_def encode_def without_newline_def enqueued_error Let_def
        split: json.splits)
next
  case False
  with assms show ?thesis
    by (auto simp: step_def onParse_delta try_block_def enqueue_refused streaming_def
        encode_def enqueued_error Let_def split: json.splits)
qed

text \<open>
  C2 on the first fragments of a stream: a newline is held back at counter 0, \<^verbatim>\<open>ok\<close> is
  emitted at counter 0, and a newline is emitted once the counter is 2.
\<close>

theorem suppression_policy_witness:
  "enqueued (ctrl (step (table_platform [(''a'', delta_doc [newline]), (''b'', delta_doc ''ok'')])
       init (Feed (Event ''a'')))) = []
   \<and> enqueued (ctrl (step (table_platform [(''a'', delta_doc [newline]), (''b'', delta_doc ''ok'')])
       init (Feed (Event ''b'')))) = [''ok'']
   \<and> enqueued (ctrl (step (table_platform [(''a'', delta_doc [newline]), (''b'', delta_doc ''ok'')])
       (init\<lparr>counter := 2\<rparr>) (Feed (Event ''a'')))) = [[newline]]"
proof -
  let ?P = "table_platform [(''a'', delta_doc [newline]), (''b'', delta_doc ''ok'')]"
  have s0: "escaped (init :: nat reducer) = None"
    and s2: "escaped (init\<lparr>counter := 2\<rparr> :: nat reducer) = None"
    by (simp_all add: init_def)
  have st: "streaming (init :: nat reducer)" "streaming (init\<lparr>counter := 2\<rparr> :: nat reducer)"
    by (simp_all add: streaming_def init_def new_controller_def canCloseOrEnqueue_def)
  have a: "''a'' \<noteq> ''[DONE]''" and b: "''b'' \<noteq> ''[DONE]''" by simp_all
  have pa: "JSON_parse ?P ''a'' = Some (delta_doc [newline])"
    and pb: "JSON_parse ?P ''b'' = Some (delta_doc ''ok'')"
    by (simp_all add: table_platform_def)
  have ea: "extract_text ?P (delta_doc [newline]) = Inr (JStr [newline])"
    and eb: "extract_text ?P (delta_doc ''ok'') = Inr (JStr ''ok'')"
    by (simp_all add: extract_text_def delta_doc_def)
  have ta: "toString_js ?P (JStr [newline]) = Inr [newline]"
    and tb: "toString_js ?P (JStr ''ok'') = Inr ''ok''" by simp_all
  from suppression_policy [OF s0 a pa ea ta] suppression_policy [OF s0 b pb eb tb]
    suppression_policy [OF s2 a pa ea ta] st
  show ?thesis by (simp add: init_def new_controller_def newline_def without_newline_def)
qed

text \<open>
  C2 as stated fails: after a sentinel the fragment \<^verbatim>\<open>ok\<close>, which has no newline, is
  appended but not emitted, and the counter stays 0; and at the start of a stream the
  fragment \<^verbatim>\<open>true\<close>, which is not a string, is appended but not emitted.
\<close>

theorem suppression_policy_counterexample:
  "enqueued (ctrl (run (table_platform [(''b'', delta_doc ''ok'')]) init
      [Feed (Event ''[DONE]''), Feed (Event ''b'')])) = []
   \<and> counter (run (table_platform [(''b'', delta_doc ''ok'')]) init
      [Feed (Event ''[DONE]''), Feed (Event ''b'')]) = 0
   \<and> response (run (table_platform [(''b'', delta_doc ''ok'')]) init
      [Feed (Event ''[DONE]''), Feed (Event ''b'')]) = ''ok''
   \<and> enqueued (ctrl (run (table_platform [(''t'', content_doc (JBool True))]) init
      [Feed (Event ''t'')])) = []
   \<and> counter (run (table_platform [(''t'', content_doc (JBool True))]) init
      [Feed (Event ''t'')]) = 0
   \<and> response (run (table_platform [(''t'', content_doc (JBool True))]) init
      [Feed (Event ''t'')]) = ''true''"
  by (simp add: run_simps content_doc_def)




text \<open>An event whose try block throws errors a readable stream and emits nothing.\<close>

lemma step_thrown:
  assumes "escaped s = None" and "d \<noteq> ''[DONE]''" and "try_block P s d = Inl (e, s')"
  shows "step P s (Feed (Event d)) = s'\<lparr>ctrl := error (ctrl s) e\<rparr>"
  using assms try_block_Inl [OF assms(3)] by (simp add: step_def onParse_delta)

lemma error_Readable:
  "state c = Readable \<Longrightarrow> state (error c e) = Errored \<and> storedError (error c e) = Some e"
  by (simp add: error_def)

text \<open>
  Claim C9, as the code has it. A non-sentinel event whose payload is valid JSON without a
  \<^verbatim>\<open>choices\<close> property (or is \<^verbatim>\<open>null\<close>), or with an empty \<^verbatim>\<open>choices\<close> array, does not count as
  an empty fragment: extraction throws a TypeError, a streaming reducer errors its output
  with it, and the event appends no text, emits nothing and does not call the completion
  callback. Afterwards nothing is emitted any more; the callback is called at most once,
  by a sentinel that follows.
\<close>

theorem missing_choices_errors:
  assumes "streaming s" and "d \<noteq> ''[DONE]''" and "JSON_parse P d = Some json"
    and "member_js (Some json) ''choices'' = Inl TypeError
       \<or> member_js (Some json) ''choices'' = Inr None
       \<or> member_js (Some json) ''choices'' = Inr (Some (JArr []))"
  shows "extract_text P json = Inl TypeError
       \<and> state (ctrl (step P s (Feed (Event d)))) = Errored
       \<and> storedError (ctrl (step P s (Feed (Event d)))) = Some TypeError
       \<and> response (step P s (Feed (Event d))) = response s
       \<and> data (step P s (Feed (Event d))) = data s
       \<and> counter (step P s (Feed (Event d))) = counter s
       \<and> logged (step P s (Feed (Event d))) = logged s
       \<and> enqueued (ctrl (step P s (Feed (Event d)))) = enqueued (ctrl s)
       \<and> (\<forall>as. enqueued (ctrl (run P (step P s (Feed (Event d))) as)) = enqueued (ctrl s)
              \<and> length (logged (run P (step P s (Feed (Event d))) as)) \<le> length (logged s) + 1)"
proof -
  let ?s' = "step P s (Feed (Event d))"
  from assms(4) have ex: "extract_text P json = Inl TypeError"
    by (auto simp: extract_text_def)
  with assms(3) have tb: "try_block P s d = Inl (TypeError, s)"
    by (simp add: try_block_def)
  from assms(1) have e: "escaped s = None" and r: "state (ctrl s) = Readable"
    by (simp_all add: streaming_def canCloseOrEnqueue_def)
  from step_thrown [OF e assms(2) tb] have st: "?s' = s\<lparr>ctrl := error (ctrl s) TypeError\<rparr>" .
  have nc: "\<not> canCloseOrEnqueue (ctrl ?s')"
    by (simp add: st canCloseOrEnqueue_error)
  have rest: "enqueued (ctrl (run P ?s' as)) = enqueued (ctrl s)
      \<and> length (logged (run P ?s' as)) \<le> length (logged s) + 1" for as
    using refused_run [OF nc, of P as] refused_run_logged [OF nc, of P as]
    by (simp add: st enqueued_error)
  from ex rest error_Readable [OF r, of TypeError] show ?thesis
    by (simp add: st enqueued_error)
qed

text \<open>C9 on the payload \<^verbatim>\<open>{}\<close> at the start of a stream.\<close>

theorem missing_choices_errors_witness:
  "state (ctrl (step (table_platform [(''{}'', JObj [])]) init (Feed (Event ''{}'')))) = Errored
   \<and> logged (step (table_platform [(''{}'', JObj [])]) init (Feed (Event ''{}''))) = []"
proof -
  let ?P = "table_platform [(''{}'', JObj [])]"
  have s: "streaming (init :: nat reducer)"
    by (simp add: streaming_def init_def new_controller_def canCloseOrEnqueue_def)
  have d: "''{}'' \<noteq> ''[DONE]''" by simp
  have p: "JSON_parse ?P ''{}'' = Some (JObj [])" by (simp add: table_platform_def)
  have m: "member_js (Some (JObj [])) ''choices'' = Inl TypeError
       \<or> member_js (Some (JObj ([] :: (string \<times> nat json) list))) ''choices'' = Inr None
       \<or> member_js (Some (JObj [])) ''choices'' = Inr (Some (JArr []))" by simp
  from missing_choices_errors [OF s d p m] show ?thesis by (simp add: init_def)
qed

text \<open>
  C9 as stated fails: after the payload \<^verbatim>\<open>{}\<close> has errored the output, a sentinel still
  calls the completion callback.
\<close>

theorem missing_choices_counterexample:
  "state (ctrl (run (table_platform [(''{}'', JObj [])]) init
      [Feed (Event ''{}''), Feed (Event ''[DONE]'')])) = Errored
   \<and> logged (run (table_platform [(''{}'', JObj [])]) init
      [Feed (Event ''{}''), Feed (Event ''[DONE]'')]) = [([], JObj [])]"
  by (simp add: run_simps)

lemma unfinished_step:
  assumes "unfinished s" and "a \<noteq> Feed (Event ''[DONE]'')"
  shows "unfinished (step P s a)"
proof (cases a)
  case (Feed ev)
  show ?thesis
  proof (cases ev)
    case (Event d)
    with assms Feed have d: "d \<noteq> ''[DONE]''" by simp
    show ?thesis
    proof (cases "try_block P s d")
      case (Inl p)
      obtain e s' where p: "p = (e, s')" by (cases p)
      from assms(1) have "escaped s = None" by (simp add: unfinished_def)
      from step_thrown [OF this d Inl [unfolded p]] try_block_Inl [OF Inl [unfolded p]] assms(1)
      show ?thesis by (auto simp: Feed Event unfinished_def error_def)
    next
      case (Inr s')
      with assms(1) d Feed Event show ?thesis
        by (auto simp: step_def onParse_delta unfinished_def try_block_def enqueue_def Let_def
            split: option.splits sum.splits json.splits if_splits)
    qed
  next
    case (ReconnectInterval n)
    with assms Feed show ?thesis by (simp add: step_def onParse_def)
  qed
next
  case Read
  with assms show ?thesis
    by (auto simp: step_Read unfinished_def read_def split: list.splits)
next
  case StartRejected
  with assms show ?thesis by (simp add: step_def unfinished_def)
qed

lemma payloads_sentinel: "''[DONE]'' \<in> set (payloads as) \<longleftrightarrow> Feed (Event ''[DONE]'') \<in> set as"
  by (induction as rule: payloads.induct) auto

lemma unfinished_run:
  "unfinished s \<Longrightarrow> ''[DONE]'' \<notin> set (payloads as) \<Longrightarrow> unfinished (run P s as)"
proof (induction as arbitrary: s)
  case Nil
  then show ?case by (simp add: run_def)
next
  case (Cons a as)
  from Cons.prems(2) have a: "a \<noteq> Feed (Event ''[DONE]'')"
    and rest: "''[DONE]'' \<notin> set (payloads as)"
    by (auto simp: payloads_sentinel)
  from Cons.IH [OF unfinished_step [OF Cons.prems(1) a] rest] show ?case
    by (simp add: run_def)
qed

lemma unfinished_init: "unfinished init"
  by (simp add: unfinished_def init_def new_controller_def)

text \<open>
  Claim C4, as the code has it. When a payload that is not valid JSON is processed before
  any sentinel, the output is in the error state afterwards, no text is appended from that
  event and nothing is emitted from then on; the completion callback has not been called,
  and is called at most once later, by a sentinel that follows.
\<close>

theorem malformed_payload_errors:
  assumes "''[DONE]'' \<notin> set (payloads as)" and "d \<noteq> ''[DONE]''" and "JSON_parse P d = None"
  shows "state (ctrl (step P (run P init as) (Feed (Event d)))) = Errored
       \<and> response (step P (run P init as) (Feed (Event d))) = response (run P init as)
       \<and> data (step P (run P init as) (Feed (Event d))) = data (run P init as)
       \<and> logged (step P (run P init as) (Feed (Event d))) = []
       \<and> (\<forall>bs. enqueued (ctrl (run P (step P (run P init as) (Feed (Event d))) bs)) =
                 enqueued (ctrl (run P init as))
              \<and> length (logged (run P (step P (run P init as) (Feed (Event d))) bs)) \<le> 1)"
proof -
  let ?s = "run P init as"
  let ?s' = "step P ?s (Feed (Event d))"
  from unfinished_run [OF unfinished_init assms(1)] have u: "unfinished ?s" .
  then have e: "escaped ?s = None" and l: "logged ?s = []" and c: "state (ctrl ?s) \<noteq> Closed"
    by (simp_all add: unfinished_def)
  from assms(3) have tb: "try_block P ?s d = Inl (SyntaxError, ?s)"
    by (simp add: try_block_def)
  from step_thrown [OF e assms(2) tb] have st: "?s' = ?s\<lparr>ctrl := error (ctrl ?s) SyntaxError\<rparr>" .
  have nc: "\<not> canCloseOrEnqueue (ctrl ?s')"
    by (simp add: st canCloseOrEnqueue_error)
  have rest: "enqueued (ctrl (run P ?s' bs)) = enqueued (ctrl ?s)
      \<and> length (logged (run P ?s' bs)) \<le> 1" for bs
    using refused_run [OF nc, of P bs] refused_run_logged [OF nc, of P bs] l
    by (simp add: st enqueued_error)
  have er: "state (error (ctrl ?s) SyntaxError) = Errored"
    using c by (cases "state (ctrl ?s)") (simp_all add: error_def)
  from rest er l show ?thesis by (simp add: st)
qed

text \<open>C4 on the payload \<^verbatim>\<open>{not valid\<close> at the start of a stream.\<close>

theorem malformed_payload_errors_witness:
  "''[DONE]'' \<notin> set (payloads []) \<and> ''{not valid'' \<noteq> ''[DONE]''
   \<and> JSON_parse (table_platform []) ''{not valid'' = None
   \<and> state (ctrl (step (table_platform []) (run (table_platform []) init [])
        (Feed (Event ''{not valid'')))) = Errored"
proof -
  have n: "''[DONE]'' \<notin> set (payloads [])" by simp
  have d: "''{not valid'' \<noteq> ''[DONE]''" by simp
  have p: "JSON_parse (table_platform []) ''{not valid'' = None" by (simp add: table_platform_def)
  from malformed_payload_errors [OF n d p] n d p show ?thesis by blast
qed

text \<open>
  C4 as stated fails: after the payload \<^verbatim>\<open>{not valid\<close> has errored the output, a sentinel
  still calls the completion callback.
\<close>

theorem malformed_payload_counterexample:
  "state (ctrl (run (table_platform []) init
      [Feed (Event ''{not valid''), Feed (Event ''[DONE]'')])) = Errored
   \<and> logged (run (table_platform []) init
      [Feed (Event ''{not valid''), Feed (Event ''[DONE]'')]) = [([], JObj [])]"
  by (simp add: run_simps)

text \<open>The metadata of a reducer that is streaming.\<close>

lemma streaming_step_data:
  assumes "streaming (step P s a)"
  shows "data (step P s a) = last_parsed P (data s) a"
proof (cases a)
  case (Feed ev)
  show ?thesis
  proof (cases ev)
    case (Event d)
    from streaming_step_back [OF assms] have e: "escaped s = None"
      by (simp add: streaming_def)
    from streaming_step_payload assms Feed Event obtain json t printed
      where d: "d \<noteq> ''[DONE]''" and p: "JSON_parse P d = Some json"
        and x: "extract_text P json = Inr t" and y: "toString_js P t = Inr printed"
      by blast
    have "data (step P s (Feed (Event d))) = json"
      using e d p x y
      by (auto simp: step_def onParse_delta try_block_def Let_def
          split: sum.splits json.splits)
    with d p Feed Event show ?thesis by (simp add: last_parsed_def)
  next
    case (ReconnectInterval n)
    with Feed show ?thesis by (simp add: step_def onParse_def last_parsed_def)
  qed
next
  case Read
  then show ?thesis by (simp add: step_Read last_parsed_def)
next
  case StartRejected
  then show ?thesis by (simp add: step_def last_parsed_def split: option.splits)
qed

lemma streaming_run_data:
  "streaming (run P s as) \<Longrightarrow> data (run P s as) = foldl (last_parsed P) (data s) as"
proof (induction as rule: rev_induct)
  case Nil
  then show ?case by (simp add: run_def)
next
  case (snoc a as)
  from snoc.prems have st: "streaming (step P (run P s as) a)" by (simp add: run_snoc)
  from streaming_step_data [OF st] snoc.IH [OF streaming_step_back [OF st]]
  show ?case by (simp add: run_snoc)
qed

text \<open>
  Claim C1, as the code has it. When the sentinel is processed in the state STREAMING, the
  completion callback is called, for the first time, with the accumulated text and the
  document of the last parsed payload (the empty object if there was none), and the close
  of the output is requested: the output is closed at once when no chunk waits to be read.
  From then on no fragment is emitted. Events are still processed, though: the callback is
  called once more by a second sentinel, so at most twice in all.
\<close>

theorem sentinel_completes:
  assumes "streaming (run P init as)"
  shows "logged (step P (run P init as) (Feed (Event ''[DONE]''))) =
           [(concat (map (fragment P) as), foldl (last_parsed P) (JObj []) as)]
       \<and> closeRequested (ctrl (step P (run P init as) (Feed (Event ''[DONE]''))))
       \<and> state (ctrl (step P (run P init as) (Feed (Event ''[DONE]'')))) =
           (if queue (ctrl (run P init as)) = [] then Closed else Readable)
       \<and> escaped (step P (run P init as) (Feed (Event ''[DONE]''))) = None
       \<and> (\<forall>bs. enqueued (ctrl (run P (step P (run P init as) (Feed (Event ''[DONE]''))) bs)) =
                 enqueued (ctrl (run P init as))
              \<and> length (logged (run P (step P (run P init as) (Feed (Event ''[DONE]''))) bs)) \<le> 2)"
proof -
  let ?s = "run P init as"
  let ?s1 = "step P ?s (Feed (Event ''[DONE]''))"
  from assms have e: "escaped ?s = None" and c: "canCloseOrEnqueue (ctrl ?s)"
    by (simp_all add: streaming_def)
  from response_run [OF e] have r: "response ?s = concat (map (fragment P) as)"
    by (simp add: init_def)
  from streaming_run_data [OF assms] have m: "data ?s = foldl (last_parsed P) (JObj []) as"
    by (simp add: init_def)
  from streaming_run_logged [OF assms] have l: "logged ?s = []"
    by (simp add: init_def)
  from close_accepted [OF c] obtain c' where cl: "close (ctrl ?s) = Inr c'"
    and cr: "closeRequested c'" and en: "enqueued c' = enqueued (ctrl ?s)"
    and st: "state c' = (if queue (ctrl ?s) = [] then Closed else Readable)"
    by auto
  from e cl have s1: "?s1 = ?s\<lparr>logged := logged ?s @ [(response ?s, data ?s)], ctrl := c'\<rparr>"
    by (simp add: step_def onParse_DONE)
  have nc: "\<not> canCloseOrEnqueue (ctrl ?s1)"
    using cr by (simp add: s1 canCloseOrEnqueue_def)
  have rest: "enqueued (ctrl (run P ?s1 bs)) = enqueued (ctrl ?s)
      \<and> length (logged (run P ?s1 bs)) \<le> 2" for bs
    using refused_run [OF nc, of P bs] refused_run_logged [OF nc, of P bs]
    by (simp add: s1 en l)
  from rest show ?thesis
    by (simp add: s1 l r m cr st e)
qed

text \<open>C1 on the stream of the one fragment \<^verbatim>\<open>ok\<close>.\<close>

theorem sentinel_completes_witness:
  "streaming (run (table_platform [(''b'', delta_doc ''ok'')]) init [Feed (Event ''b'')])
   \<and> logged (step (table_platform [(''b'', delta_doc ''ok'')])
        (run (table_platform [(''b'', delta_doc ''ok'')]) init [Feed (Event ''b'')])
        (Feed (Event ''[DONE]''))) = [(''ok'', delta_doc ''ok'')]"
proof -
  let ?P = "table_platform [(''b'', delta_doc ''ok'')]"
  have s: "streaming (run ?P init [Feed (Event ''b'')])"
    by (simp add: streaming_def run_simps)
  have f: "concat (map (fragment ?P) [Feed (Event ''b'')]) = ''ok''"
    by (simp add: run_simps)
  have m: "foldl (last_parsed ?P) (JObj []) [Feed (Event ''b'')] = delta_doc ''ok''"
    by (simp add: last_parsed_def table_platform_def)
  from sentinel_completes [OF s] s f m show ?thesis by simp
qed

text \<open>
  C1 as stated fails: an event fed after the sentinel is processed, its text is
  accumulated, and a second sentinel calls the completion callback a second time.
\<close>

theorem sentinel_completes_counterexample:
  "logged (run (table_platform [(''b'', delta_doc ''ok'')]) init
      [Feed (Event ''[DONE]''), Feed (Event ''b''), Feed (Event ''[DONE]'')]) =
     [([], JObj []), (''ok'', delta_doc ''ok'')]"
  by (simp add: run_simps)

text \<open>The counter counts the chunks emitted, and no event emits more than one.\<close>

lemma try_block_counter:
  "try_block P s d = Inr s' \<Longrightarrow>
     counter s' - counter s = length (enqueued (ctrl s')) - length (enqueued (ctrl s))
     \<and> counter s \<le> counter s' \<and> counter s' \<le> counter s + 1
     \<and> length (enqueued (ctrl s)) \<le> length (enqueued (ctrl s'))"
  by (auto simp: try_block_def enqueue_def Let_def
      split: option.splits sum.splits json.splits if_splits)

lemma counter_step:
  assumes "counter s = length (enqueued (ctrl s))"
  shows "counter (step P s a) = length (enqueued (ctrl (step P s a)))
       \<and> counter (step P s a) \<le> counter s + length (payloads [a])"
proof (cases a)
  case (Feed ev)
  show ?thesis
  proof (cases ev)
    case (Event d)
    show ?thesis
    proof (cases "escaped s = None")
      case False
      with assms Feed Event show ?thesis by (simp add: step_escaped)
    next
      case e: True
      show ?thesis
      proof (cases "d = ''[DONE]''")
        case True
        with assms e Feed Event show ?thesis
          by (auto simp: step_def onParse_DONE close_def split: sum.splits)
      next
        case False
        show ?thesis
        proof (cases "try_block P s d")
          case (Inl p)
          obtain x s' where p: "p = (x, s')" by (cases p)
          from step_thrown [OF e False Inl [unfolded p]] try_block_Inl [OF Inl [unfolded p]] assms
          show ?thesis by (simp add: Feed Event enqueued_error)
        next
          case (Inr s')
          from try_block_counter [OF Inr] assms
          have "counter s' = length (enqueued (ctrl s'))" and "counter s' \<le> counter s + 1"
            by linarith+
          with e False Inr show ?thesis
            by (simp add: Feed Event step_def onParse_delta)
        qed
      qed
    qed
  next
    case (ReconnectInterval n)
    with assms Feed show ?thesis by (simp add: step_def onParse_def)
  qed
next
  case Read
  with assms show ?thesis by (simp add: step_Read enqueued_read)
next
  case StartRejected
  with assms show ?thesis by (simp add: step_def enqueued_error split: option.splits)
qed

lemma payloads_append: "payloads (as @ bs) = payloads as @ payloads bs"
  by (induction as rule: payloads.induct) simp_all

lemma counter_run:
  "counter (run P init as) = length (enqueued (ctrl (run P init as)))
   \<and> counter (run P init as) \<le> length (payloads as)"
proof (induction as rule: rev_induct)
  case Nil
  show ?case by (simp add: run_def init_def new_controller_def)
next
  case (snoc a as)
  from snoc have c: "counter (run P init as) = length (enqueued (ctrl (run P init as)))"
    and l: "counter (run P init as) \<le> length (payloads as)" by simp_all
  from counter_step [OF c, of P a] l show ?case
    by (simp add: run_snoc payloads_append)
qed

text \<open>
  Claim C3, as the code has it. What decides is the number of fragments emitted so far, not
  the position of the fragment. Every fragment of an event that is processed is appended
  to the accumulated text. While the reducer is in the state STREAMING, a fragment with a
  newline (as one that is not a string) is held back as long as fewer than two fragments
  have been emitted, and every fragment is emitted once two have been. No more fragments
  have been emitted than events were fed, so a fragment with a newline at position 0 or 1
  is always held back. After a sentinel or an error no fragment is emitted.
\<close>

theorem suppression_by_emitted:
  assumes "escaped (run P init as) = None" and "d \<noteq> ''[DONE]''"
    and "JSON_parse P d = Some json" and "extract_text P json = Inr text"
    and "toString_js P text = Inr t"
  shows "enqueued (ctrl (step P (run P init as) (Feed (Event d)))) =
           (if streaming (run P init as)
               \<and> (2 \<le> length (enqueued (ctrl (run P init as))) \<or> without_newline text)
            then enqueued (ctrl (run P init as)) @ [t]
            else enqueued (ctrl (run P init as)))
       \<and> length (enqueued (ctrl (run P init as))) \<le> length (payloads as)
       \<and> response (step P (run P init as) (Feed (Event d))) = response (run P init as) @ t"
proof -
  let ?s = "run P init as"
  have c: "counter ?s = length (enqueued (ctrl ?s))" and l: "counter ?s \<le> length (payloads as)"
    using counter_run [of P as] by simp_all
  show ?thesis
  proof (cases "canCloseOrEnqueue (ctrl ?s)")
    case True
    with assms c l show ?thesis
      by (auto simp: step_def onParse_delta try_block_def enqueue_def streaming_def
          canCloseOrEnqueue_def encode_def without_newline_def enqueued_error Let_def
          split: json.splits)
  next
    case False
    with assms c l show ?thesis
      by (auto simp: step_def onParse_delta try_block_def enqueue_refused streaming_def
          encode_def enqueued_error Let_def split: json.splits)
  qed
qed

text \<open>
  C3 on a newline fragment that follows one newline fragment.
\<close>

theorem suppression_by_emitted_witness:
  "escaped (run (table_platform [(''a'', delta_doc [newline])]) init [Feed (Event ''a'')]) = None
   \<and> enqueued (ctrl (step (table_platform [(''a'', delta_doc [newline])])
        (run (table_platform [(''a'', delta_doc [newline])]) init [Feed (Event ''a'')])
        (Feed (Event ''a'')))) = []"
proof -
  let ?P = "table_platform [(''a'', delta_doc [newline])]"
  have s: "escaped (run ?P init [Feed (Event ''a'')]) = None"
    by (simp add: run_simps)
  have a: "''a'' \<noteq> ''[DONE]''" by simp
  have p: "JSON_parse ?P ''a'' = Some (delta_doc [newline])"
    by (simp add: table_platform_def)
  have x: "extract_text ?P (delta_doc [newline]) = Inr (JStr [newline])"
    by (simp add: extract_text_def delta_doc_def)
  have y: "toString_js ?P (JStr [newline]) = Inr [newline]" by simp
  have q: "enqueued (ctrl (run ?P init [Feed (Event ''a'')])) = []"
    by (simp add: run_simps)
  have w: "\<not> without_newline (JStr [newline] :: nat json)"
    by (simp add: without_newline_def)
  from suppression_by_emitted [OF s a p x y] s q w show ?thesis by simp
qed

text \<open>
  C3 as stated fails: of three fragments \<^verbatim>\<open>"\n"\<close> the third, at position 2, is not
  emitted; and neither is a fragment \<^verbatim>\<open>ok\<close> at position 2 that comes after a sentinel.
\<close>

theorem suppression_by_position_counterexample:
  "enqueued (ctrl (run (table_platform [(''a'', delta_doc [newline])]) init
      [Feed (Event ''a''), Feed (Event ''a''), Feed (Event ''a'')])) = []
   \<and> response (run (table_platform [(''a'', delta_doc [newline])]) init
      [Feed (Event ''a''), Feed (Event ''a''), Feed (Event ''a'')]) = [newline, newline, newline]
   \<and> streaming (run (table_platform [(''a'', delta_doc [newline])]) init
      [Feed (Event ''a''), Feed (Event ''a''), Feed (Event ''a'')])
   \<and> enqueued (ctrl (run (table_platform [(''b'', delta_doc ''ok'')]) init
      [Feed (Event ''b''), Feed (Event ''b''), Feed (Event ''[DONE]''), Feed (Event ''b'')])) =
       [''ok'', ''ok'']
   \<and> response (run (table_platform [(''b'', delta_doc ''ok'')]) init
      [Feed (Event ''b''), Feed (Event ''b''), Feed (Event ''[DONE]''), Feed (Event ''b'')]) =
       ''okokok''"
  by (simp add: streaming_def run_simps)

text \<open>Only a sentinel calls the logger.\<close>

lemma other_step_logged:
  assumes "a \<noteq> Feed (Event ''[DONE]'')"
  shows "logged (step P s a) = logged s"
proof (cases a)
  case (Feed ev)
  show ?thesis
  proof (cases ev)
    case (Event d)
    with assms Feed have "d \<noteq> ''[DONE]''" by simp
    with Feed Event show ?thesis
      by (auto simp: step_def onParse_delta
          split: sum.splits prod.splits dest!: try_block_Inr try_block_Inl)
  next
    case (ReconnectInterval n)
    with Feed show ?thesis by (simp add: step_def onParse_def)
  qed
next
  case Read
  then show ?thesis by (simp add: step_Read)
next
  case StartRejected
  then show ?thesis by (simp add: step_def split: option.splits)
qed

lemma other_run_logged:
  "Feed (Event ''[DONE]'') \<notin> set as \<Longrightarrow> logged (run P s as) = logged s"
proof (induction as arbitrary: s)
  case Nil
  show ?case by (simp add: run_def)
next
  case (Cons a as)
  from Cons.prems have a: "a \<noteq> Feed (Event ''[DONE]'')"
    and as: "Feed (Event ''[DONE]'') \<notin> set as" by auto
  from Cons.IH [OF as, of "step P s a"] other_step_logged [OF a, of P s]
  show ?case by (simp add: run_def)
qed

lemma sentinel_step:
  assumes "escaped s = None"
  shows "logged (step P s (Feed (Event ''[DONE]''))) = logged s @ [(response s, data s)]
       \<and> \<not> canCloseOrEnqueue (ctrl (step P s (Feed (Event ''[DONE]''))))"
proof (cases "canCloseOrEnqueue (ctrl s)")
  case True
  from close_accepted [OF True] assms show ?thesis
    by (auto simp: step_def onParse_DONE canCloseOrEnqueue_def)
next
  case False
  with assms show ?thesis by (simp add: step_def onParse_DONE close_refused)
qed

lemma logged_run_init: "length (logged (run P init as)) \<le> 2"
proof (cases "Feed (Event ''[DONE]'') \<in> set as")
  case False
  then show ?thesis by (simp add: other_run_logged init_def)
next
  case True
  then obtain as1 as2 where as: "as = as1 @ Feed (Event ''[DONE]'') # as2"
    and n: "Feed (Event ''[DONE]'') \<notin> set as1"
    by (auto dest: split_list_first)
  let ?s = "run P init as1"
  from n have "''[DONE]'' \<notin> set (payloads as1)" by (simp add: payloads_sentinel)
  from unfinished_run [OF unfinished_init this, of P] have e: "escaped ?s = None" and l: "logged ?s = []"
    by (simp_all add: unfinished_def)
  from sentinel_step [OF e, of P] l
  have l1: "length (logged (step P ?s (Feed (Event ''[DONE]'')))) = 1"
    and nc: "\<not> canCloseOrEnqueue (ctrl (step P ?s (Feed (Event ''[DONE]''))))"
    by simp_all
  from refused_run_logged [OF nc, of P as2] l1 show ?thesis
    by (simp add: as run_def)
qed

lemma one_sentinel_logged:
  assumes "''[DONE]'' \<notin> set (payloads as1)" and "''[DONE]'' \<notin> set (payloads as2)"
  shows "logged (run P init (as1 @ Feed (Event ''[DONE]'') # as2)) =
           [(concat (map (fragment P) as1), data (run P init as1))]"
proof -
  let ?s = "run P init as1"
  from unfinished_run [OF unfinished_init assms(1), of P]
  have e: "escaped ?s = None" and l: "logged ?s = []"
    by (simp_all add: unfinished_def)
  from response_run [OF e] have r: "response ?s = concat (map (fragment P) as1)"
    by (simp add: init_def)
  from assms(2) have n: "Feed (Event ''[DONE]'') \<notin> set as2" by (simp add: payloads_sentinel)
  have "run P init (as1 @ Feed (Event ''[DONE]'') # as2) =
      run P (step P ?s (Feed (Event ''[DONE]''))) as2"
    by (simp add: run_def)
  with other_run_logged [OF n, of P "step P ?s (Feed (Event ''[DONE]''))"]
    sentinel_step [OF e, of P] l r
  show ?thesis by simp
qed

text \<open>
  Claim C7, as the code has it. Without \<^verbatim>\<open>--stream\<close>, for an answer with a string at
  \<^verbatim>\<open>choices[0].message.content\<close>, the logger is called exactly once, and hands the prompt,
  the model, the system text, the response and the document to \<^verbatim>\<open>log\<close> unless logging is
  off. With \<^verbatim>\<open>--stream\<close> the logger is called once for every sentinel processed: never when
  the stream has no sentinel, exactly once when it has one, and never more than twice.
\<close>

theorem logger_calls_per_invocation:
  "(\<not> stream a \<and> message_content d = Inr r \<longrightarrow>
      logger_calls (request P a p today as d) = [(r, d)]
      \<and> log_calls (request P a p today as d) =
          (if log a then [Log p (model_name a) (system_text a today) r d] else []))
   \<and> (stream a \<longrightarrow>
      logger_calls (request P a p today as d) = logged (run P init as)
      \<and> log_calls (request P a p today as d) =
          concat (map (logger a p today) (logged (run P init as)))
      \<and> length (logger_calls (request P a p today as d)) \<le> 2)
   \<and> (stream a \<and> ''[DONE]'' \<notin> set (payloads as) \<longrightarrow>
      logger_calls (request P a p today as d) = [])
   \<and> (stream a \<and> ''[DONE]'' \<notin> set (payloads as1) \<and> ''[DONE]'' \<notin> set (payloads as2) \<longrightarrow>
      logger_calls (request P a p today (as1 @ Feed (Event ''[DONE]'') # as2) d) =
        [(concat (map (fragment P) as1), data (run P init as1))])"
proof -
  have plain: "logger_calls (request P a p today as d) = [(r, d)]
      \<and> log_calls (request P a p today as d) =
          (if log a then [Log p (model_name a) (system_text a today) r d] else [])"
    if "\<not> stream a" "message_content d = Inr r"
    using that by (simp add: request_def logger_def Let_def split: sum.splits)
  have streamed: "logger_calls (request P a p today bs d) = logged (run P init bs)
      \<and> log_calls (request P a p today bs d) =
          concat (map (logger a p today) (logged (run P init bs)))" if "stream a" for bs
    using that by (simp add: request_def Let_def)
  have none: "logged (run P init as) = []" if "''[DONE]'' \<notin> set (payloads as)"
    using that other_run_logged [of as P init] by (simp add: payloads_sentinel init_def)
  from plain streamed none logged_run_init [of P as] one_sentinel_logged [of as1 as2 P]
  show ?thesis by simp
qed

text \<open>C7 on a plain answer, and on a stream of one fragment and one sentinel.\<close>

theorem logger_calls_per_invocation_witness:
  "logger_calls (request (table_platform [])
      \<lparr>code = False, log = True, system = None, gpt4 = False, model = None, stream = False\<rparr>
      ''hi'' ''2023-06-01'' [] (message_doc ''ok'')) = [(''ok'', message_doc ''ok'')]
   \<and> logger_calls (request (table_platform [(''b'', delta_doc ''ok'')])
      \<lparr>code = False, log = True, system = None, gpt4 = False, model = None, stream = True\<rparr>
      ''hi'' ''2023-06-01'' ([Feed (Event ''b'')] @ Feed (Event ''[DONE]'') # []) JNull) =
       [(''ok'', delta_doc ''ok'')]"
proof -
  let ?a = "\<lparr>code = False, log = True, system = None, gpt4 = False, model = None, stream = False\<rparr>"
  let ?b = "\<lparr>code = False, log = True, system = None, gpt4 = False, model = None, stream = True\<rparr>"
  let ?P = "table_platform [(''b'', delta_doc ''ok'')]"
  have m: "message_content (message_doc ''ok'' :: nat json) = Inr ''ok''"
    by (simp add: message_content_def message_doc_def trim_def whitespace_def startsWith_def
        strip_leading.simps)
  have n1: "''[DONE]'' \<notin> set (payloads [Feed (Event ''b'')])" and n2: "''[DONE]'' \<notin> set (payloads [])"
    by simp_all
  have f: "concat (map (fragment ?P) [Feed (Event ''b'')]) = ''ok''"
    by (simp add: run_simps)
  have d: "data (run ?P init [Feed (Event ''b'')]) = delta_doc ''ok''"
    by (simp add: run_simps)
  from logger_calls_per_invocation
      [of ?a "message_doc ''ok''" "''ok''" "table_platform []" "''hi''" "''2023-06-01''" "[]" "[]" "[]"]
    logger_calls_per_invocation
      [of ?b JNull "[]" ?P "''hi''" "''2023-06-01''" "[]" "[Feed (Event ''b'')]" "[]"]
    m n1 n2 f d
  show ?thesis by simp
qed

text \<open>
  C7 as stated fails: with \<^verbatim>\<open>--stream\<close> the logger is not called when the stream brings no
  sentinel, and is called twice when it brings two.
\<close>

theorem logger_calls_counterexample:
  "logger_calls (request (table_platform [])
      \<lparr>code = False, log = True, system = None, gpt4 = False, model = None, stream = True\<rparr>
      ''hi'' ''2023-06-01'' [] JNull) = []
   \<and> length (logger_calls (request (table_platform [])
      \<lparr>code = False, log = True, system = None, gpt4 = False, model = None, stream = True\<rparr>
      ''hi'' ''2023-06-01'' [Feed (Event ''[DONE]''), Feed (Event ''[DONE]'')] JNull)) = 2"
  by (simp add: request_def run_simps)














end
